theory Spec2Isabelle
  imports Complex_Main
begin

section \<open>Python strings\<close>

definition is_space :: "char \<Rightarrow> bool" where
  "is_space c = (let n = (of_char c :: nat) in
     (9 \<le> n \<and> n \<le> 13) \<or> (28 \<le> n \<and> n \<le> 32) \<or> n = 133 \<or> n = 160)"

definition is_upper :: "char \<Rightarrow> bool" where
  "is_upper c = (let n = (of_char c :: nat) in
     (65 \<le> n \<and> n \<le> 90) \<or> (192 \<le> n \<and> n \<le> 214) \<or> (216 \<le> n \<and> n \<le> 222))"

definition lower_char :: "char \<Rightarrow> char" where
  "lower_char c = (if is_upper c
     then (case c of Char b0 b1 b2 b3 b4 b5 b6 b7 \<Rightarrow> Char b0 b1 b2 b3 b4 True b6 b7)
     else c)"

definition lower :: "string \<Rightarrow> string" where
  "lower s = map lower_char s"

definition lstrip :: "string \<Rightarrow> string" where
  "lstrip s = dropWhile is_space s"

definition rstrip :: "string \<Rightarrow> string" where
  "rstrip s = rev (dropWhile is_space (rev s))"

definition strip :: "string \<Rightarrow> string" where
  "strip s = rstrip (lstrip s)"

fun startswith :: "string \<Rightarrow> string \<Rightarrow> bool" where
  "startswith s [] = True"
| "startswith [] (p # ps) = False"
| "startswith (c # cs) (p # ps) = (c = p \<and> startswith cs ps)"

fun contains :: "string \<Rightarrow> string \<Rightarrow> bool" where
  "contains [] p = (p = [])"
| "contains (c # cs) p = (startswith (c # cs) p \<or> contains cs p)"

fun split_ws_aux :: "string \<Rightarrow> string \<Rightarrow> string list" where
  "split_ws_aux cur [] = (if cur = [] then [] else [rev cur])"
| "split_ws_aux cur (c # cs) =
     (if is_space c then (if cur = [] then split_ws_aux [] cs else rev cur # split_ws_aux [] cs)
      else split_ws_aux (c # cur) cs)"

definition split_ws :: "string \<Rightarrow> string list" where
  "split_ws s = split_ws_aux [] s"

fun collapse_ws_aux :: "bool \<Rightarrow> string \<Rightarrow> string" where
  "collapse_ws_aux in_run [] = []"
| "collapse_ws_aux in_run (c # cs) =
     (if is_space c then (if in_run then collapse_ws_aux True cs else CHR '' '' # collapse_ws_aux True cs)
      else c # collapse_ws_aux False cs)"

definition collapse_ws :: "string \<Rightarrow> string" where
  "collapse_ws s = collapse_ws_aux False s"

section \<open>Documents\<close>

datatype attr_value = AStr string | AList "string list"

datatype node = Text string | Element string "(string \<times> attr_value) list" "node list"

datatype exn = ValueError | XMLSyntaxError | ParserError | OtherException string

record lib =
  bs_parse :: "string \<Rightarrow> exn + node"
  urljoin :: "string \<Rightarrow> string \<Rightarrow> exn + string"
  urlparse_scheme :: "string \<Rightarrow> exn + string"
  str_of_list :: "string list \<Rightarrow> string"
  prettify :: "node \<Rightarrow> exn + string"
  lxml_fromstring :: "string \<Rightarrow> exn option"

definition LLM_OPTIMIZED_TAGS :: "string set" where
  "LLM_OPTIMIZED_TAGS = {
     ''html'', ''head'', ''title'', ''body'',
     ''main'', ''article'', ''section'',
     ''h1'', ''h2'', ''h3'', ''h4'', ''h5'', ''h6'', ''p'', ''br'', ''hr'',
     ''ul'', ''ol'', ''li'', ''dl'', ''dt'', ''dd'',
     ''strong'', ''em'', ''b'', ''i'', ''code'', ''pre'', ''mark'',
     ''blockquote'', ''q'', ''cite'',
     ''table'', ''caption'', ''thead'', ''tbody'', ''tr'', ''th'', ''td'',
     ''a''}"

definition ATTRIBUTE_ALLOW_LIST :: "string \<rightharpoonup> string set" where
  "ATTRIBUTE_ALLOW_LIST = map_of [
     (''a'', {''href''}),
     (''pre'', {''class''}),
     (''code'', {''class''}),
     (''th'', {''scope''}),
     (''td'', {''colspan'', ''rowspan''}),
     (''html'', {''lang''}),
     (''blockquote'', {''cite''}),
     (''q'', {''cite''})]"

definition allowed_attrs_for_tag :: "string \<Rightarrow> string set" where
  "allowed_attrs_for_tag tag_name =
     (case ATTRIBUTE_ALLOW_LIST tag_name of None \<Rightarrow> {} | Some s \<Rightarrow> s)"

section \<open>Sanitizing tree transformer\<close>

definition py_str :: "lib \<Rightarrow> attr_value \<Rightarrow> string" where
  "py_str L v = (case v of AStr s \<Rightarrow> s | AList vs \<Rightarrow> str_of_list L vs)"

definition truthy :: "attr_value \<Rightarrow> bool" where
  "truthy v = (case v of AStr s \<Rightarrow> s \<noteq> [] | AList vs \<Rightarrow> vs \<noteq> [])"

fun dict_set :: "('k \<times> 'v) list \<Rightarrow> 'k \<Rightarrow> 'v \<Rightarrow> ('k \<times> 'v) list" where
  "dict_set [] k v = [(k, v)]"
| "dict_set ((k', v') # d) k v = (if k' = k then (k, v) # d else (k', v') # dict_set d k v)"

definition clean_href :: "lib \<Rightarrow> string \<Rightarrow> attr_value \<Rightarrow> attr_value option" where
  "clean_href L original_url v =
     (case urljoin L original_url (strip (py_str L v)) of
        Inl e \<Rightarrow> None
      | Inr absolute_href \<Rightarrow>
          (case urlparse_scheme L absolute_href of
             Inl e \<Rightarrow> None
           | Inr scheme \<Rightarrow>
               if scheme \<in> {''http'', ''https''} then Some (AStr absolute_href) else None))"

definition is_lang_class :: "string \<Rightarrow> bool" where
  "is_lang_class c = (startswith (lower c) ''language-'' \<or> startswith (lower c) ''lang-'')"

definition clean_code_class :: "attr_value \<Rightarrow> attr_value option" where
  "clean_code_class v =
     (let classes = (case v of AList vs \<Rightarrow> vs | AStr s \<Rightarrow> split_ws s)
      in case find is_lang_class classes of
           None \<Rightarrow> None
         | Some lang_class \<Rightarrow> if lang_class \<noteq> [] then Some (AList [lang_class]) else None)"

definition clean_attr_value :: "lib \<Rightarrow> string \<Rightarrow> string \<Rightarrow> string \<Rightarrow> attr_value \<Rightarrow> attr_value option" where
  "clean_attr_value L original_url tag_name attr_lower v =
     (if tag_name = ''a'' \<and> attr_lower = ''href'' then clean_href L original_url v
      else if tag_name \<in> {''pre'', ''code''} \<and> attr_lower = ''class'' then clean_code_class v
      else Some v)"

fun clean_attrs ::
  "lib \<Rightarrow> string \<Rightarrow> string \<Rightarrow> (string \<times> attr_value) list \<Rightarrow> (string \<times> attr_value) list
     \<Rightarrow> (string \<times> attr_value) list" where
  "clean_attrs L original_url tag_name [] acc = acc"
| "clean_attrs L original_url tag_name ((attr, v) # rest) acc =
     (if lower attr \<in> allowed_attrs_for_tag tag_name then
        (case clean_attr_value L original_url tag_name (lower attr) v of
           None \<Rightarrow> clean_attrs L original_url tag_name rest acc
         | Some cleaned_value \<Rightarrow>
             if truthy cleaned_value
             then clean_attrs L original_url tag_name rest (dict_set acc attr cleaned_value)
             else clean_attrs L original_url tag_name rest acc)
      else clean_attrs L original_url tag_name rest acc)"

definition is_unwrapped :: "node \<Rightarrow> bool" where
  "is_unwrapped n = (case n of Text s \<Rightarrow> False | Element nm as cs \<Rightarrow> nm = ''div'' \<and> as = [])"

definition node_contents :: "node \<Rightarrow> node list" where
  "node_contents n = (case n of Text s \<Rightarrow> [] | Element nm as cs \<Rightarrow> cs)"

definition append_fragment :: "node option \<Rightarrow> node list" where
  "append_fragment r = (case r of None \<Rightarrow> [] | Some c \<Rightarrow> [c])"

definition append_cleaned :: "node option \<Rightarrow> node list" where
  "append_cleaned r =
     (case r of None \<Rightarrow> [] | Some c \<Rightarrow> if is_unwrapped c then node_contents c else [c])"

fun clean_element_recursively :: "lib \<Rightarrow> string \<Rightarrow> nat \<Rightarrow> nat \<Rightarrow> node \<Rightarrow> node option" where
  "clean_element_recursively L original_url depth max_depth (Text s) =
     (if depth > max_depth then None
      else if strip s \<noteq> [] then Some (Text (strip s)) else None)"
| "clean_element_recursively L original_url depth max_depth (Element nm as cs) =
     (if depth > max_depth then None
      else if lower nm \<notin> LLM_OPTIMIZED_TAGS then
        (let fragment = concat (map (\<lambda>child.
               append_fragment (clean_element_recursively L original_url (depth + 1) max_depth child)) cs)
         in if fragment \<noteq> [] then Some (Element ''div'' [] fragment) else None)
      else
        (let clean_attrs' = clean_attrs L original_url (lower nm) as [];
             clean_contents = concat (map (\<lambda>child.
               append_cleaned (clean_element_recursively L original_url (depth + 1) max_depth child)) cs)
         in if clean_contents = [] \<and> lower nm \<notin> {''br'', ''hr''} then None
            else Some (Element nm clean_attrs' clean_contents)))"

definition clean_children :: "lib \<Rightarrow> string \<Rightarrow> nat \<Rightarrow> nat \<Rightarrow> node list \<Rightarrow> node list" where
  "clean_children L original_url depth max_depth cs =
     concat (map (\<lambda>child.
       append_cleaned (clean_element_recursively L original_url (depth + 1) max_depth child)) cs)"

definition node_attrs :: "node \<Rightarrow> (string \<times> attr_value) list" where
  "node_attrs n = (case n of Text s \<Rightarrow> [] | Element nm as cs \<Rightarrow> as)"


fun all_elements :: "(node \<Rightarrow> bool) \<Rightarrow> node \<Rightarrow> bool" where
  "all_elements P (Text s) = True"
| "all_elements P (Element nm as cs) = (P (Element nm as cs) \<and> list_all (all_elements P) cs)"

definition allow_listed :: "node \<Rightarrow> bool" where
  "allow_listed n =
     (case n of
        Text s \<Rightarrow> True
      | Element nm as cs \<Rightarrow>
          lower nm \<in> LLM_OPTIMIZED_TAGS \<and>
          list_all (\<lambda>(k, v). lower k \<in> allowed_attrs_for_tag (lower nm)) as)"

section \<open>Tree queries\<close>

definition is_tag :: "node \<Rightarrow> bool" where
  "is_tag n = (case n of Text s \<Rightarrow> False | Element nm as cs \<Rightarrow> True)"

definition node_name :: "node \<Rightarrow> string" where
  "node_name n = (case n of Text s \<Rightarrow> [] | Element nm as cs \<Rightarrow> nm)"

definition has_name :: "string \<Rightarrow> node \<Rightarrow> bool" where
  "has_name nm n = (is_tag n \<and> node_name n = nm)"

fun all_strings :: "node \<Rightarrow> string list" where
  "all_strings (Text s) = [s]"
| "all_strings (Element nm as cs) = concat (map all_strings cs)"

fun join :: "string \<Rightarrow> string list \<Rightarrow> string" where
  "join separator [] = []"
| "join separator [s] = s"
| "join separator (s # t # ss) = s @ separator @ join separator (t # ss)"

definition get_text :: "string \<Rightarrow> node \<Rightarrow> string" where
  "get_text separator n = join separator (filter (\<lambda>s. s \<noteq> []) (map strip (all_strings n)))"

fun tags_of :: "node \<Rightarrow> node list" where
  "tags_of (Text s) = []"
| "tags_of (Element nm as cs) = Element nm as cs # concat (map tags_of cs)"

definition descendant_tags :: "node \<Rightarrow> node list" where
  "descendant_tags n = concat (map tags_of (node_contents n))"

definition child_tags :: "node \<Rightarrow> node list" where
  "child_tags n = filter is_tag (node_contents n)"

definition attr_get :: "node \<Rightarrow> string \<Rightarrow> attr_value option" where
  "attr_get n k = map_of (node_attrs n) k"

section \<open>Boilerplate classifier\<close>

definition NON_CONTENT_PATTERNS :: "(string \<times> string list) list" where
  "NON_CONTENT_PATTERNS = [
     (''class'', [
        ''nav'', ''menu'', ''sidebar'', ''footer'', ''header'', ''banner'', ''cookie'', ''modal'',
        ''popup'', ''social'', ''comment'', ''related'', ''widget'', ''ads'', ''pagination'',
        ''breadcrumb'', ''toolbar'', ''utility'', ''skip-link'', ''site-header'', ''site-footer'',
        ''advertisement'', ''promo'', ''subnav'', ''flyout'', ''dropdown'', ''toc'', ''index'']),
     (''id'', [
        ''navigation'', ''menu'', ''sidebar'', ''footer'', ''header'', ''banner'', ''cookie'',
        ''modal'', ''popup'', ''social'', ''comments'', ''related'', ''widget'', ''ads'', ''pagination'',
        ''breadcrumbs'', ''toolbar'', ''utilities'', ''skip'', ''siteheader'', ''sitefooter'',
        ''advert'', ''promo'', ''subnav'', ''flyout'', ''dropdown'', ''toc'', ''index'']),
     (''role'', [
        ''navigation'', ''banner'', ''contentinfo'', ''complementary'', ''search'', ''form'',
        ''dialog'', ''alertdialog'', ''menubar'', ''toolbar'', ''directory'', ''log'', ''status''])]"

definition BOILERPLATE_PHRASES :: "string list" where
  "BOILERPLATE_PHRASES = [
     ''cookie preferences'', ''privacy policy'', ''terms of service'', ''terms of use'',
     ''all rights reserved'', ''related articles'', ''share this'', ''follow us'',
     ''skip to main content'', ''advertisement'', ''subscribe now'', ''sign up'', ''log in'',
     ''register'', ''download pdf'', ''print page'', ''add to cart'', ''view cart'',
     ''customer service'', ''contact us'', ''site map'', ''about us'', ''careers'']"

definition MIN_MAIN_CONTENT_LENGTH :: nat where "MIN_MAIN_CONTENT_LENGTH = 150"
definition MIN_CANDIDATE_TEXT_LENGTH :: nat where "MIN_CANDIDATE_TEXT_LENGTH = 100"
definition MAX_LINK_DENSITY_FOR_CONTENT :: rat where "MAX_LINK_DENSITY_FOR_CONTENT = 65 / 100"
definition MAX_BOILERPLATE_PHRASE_LENGTH :: nat where "MAX_BOILERPLATE_PHRASE_LENGTH = 250"

definition boilerplate_tag_names :: "string list" where
  "boilerplate_tag_names = [''nav'', ''aside'', ''header'', ''footer'', ''form'', ''select'',
     ''option'', ''button'', ''input'', ''textarea'', ''label'']"

definition pattern_match :: "attr_value \<Rightarrow> string list \<Rightarrow> bool" where
  "pattern_match attr_value patterns =
     (let values = (case attr_value of AList vs \<Rightarrow> vs | AStr s \<Rightarrow> [s]);
          values_lower = map lower values
      in list_ex (\<lambda>pattern. list_ex (\<lambda>val. contains val pattern) values_lower) patterns)"

definition attribute_boilerplate :: "node \<Rightarrow> bool" where
  "attribute_boilerplate element =
     list_ex (\<lambda>(attr_name, patterns).
        case attr_get element attr_name of
          None \<Rightarrow> False
        | Some attr_value \<Rightarrow> truthy attr_value \<and> pattern_match attr_value patterns)
       NON_CONTENT_PATTERNS"

definition link_text_length :: "node \<Rightarrow> nat" where
  "link_text_length element =
     sum_list (map (\<lambda>a. length (get_text [] a)) (filter (has_name ''a'') (descendant_tags element)))"

definition is_likely_boilerplate :: "node \<Rightarrow> bool" where
  "is_likely_boilerplate element =
     (if \<not> is_tag element then False
      else if lower (node_name element) \<in> set boilerplate_tag_names then True
      else if attribute_boilerplate element then True
      else
        (let text_content = get_text '' '' element;
             text_length = length text_content;
             link_count = length (filter (has_name ''a'') (child_tags element))
         in if text_length = 0 \<and> link_count = 0 \<and> child_tags element = [] then True
            else if link_count > 2 \<and> text_length > 0 \<and>
                    of_nat (link_text_length element) / of_nat text_length > MAX_LINK_DENSITY_FOR_CONTENT \<and>
                    text_length < MAX_BOILERPLATE_PHRASE_LENGTH * 2 then True
            else if text_length > 0 \<and> text_length < MAX_BOILERPLATE_PHRASE_LENGTH \<and>
                    list_ex (\<lambda>phrase. contains (lower text_content) phrase) BOILERPLATE_PHRASES then True
            else False))"

section \<open>Main-content locator\<close>

datatype selector = SelTag string | SelAttrEq string string | SelId string | SelClass string

definition selectors :: "selector list" where
  "selectors = [SelTag ''main'', SelTag ''article'', SelAttrEq ''role'' ''main'',
     SelId ''content'', SelId ''main-content'', SelClass ''content'', SelClass ''main-content'',
     SelId ''bodyContent'', SelClass ''post-content'', SelClass ''entry-content'',
     SelClass ''article-body'', SelClass ''story-content'']"

fun selector_matches :: "selector \<Rightarrow> node \<Rightarrow> bool" where
  "selector_matches (SelTag nm) n = has_name nm n"
| "selector_matches (SelAttrEq k v) n =
     (case attr_get n k of
        None \<Rightarrow> False
      | Some (AStr s) \<Rightarrow> s = v
      | Some (AList vs) \<Rightarrow> join '' '' vs = v)"
| "selector_matches (SelId i) n = (attr_get n ''id'' = Some (AStr i))"
| "selector_matches (SelClass c) n =
     (case attr_get n ''class'' of
        None \<Rightarrow> False
      | Some (AStr s) \<Rightarrow> c \<in> set (split_ws s)
      | Some (AList vs) \<Rightarrow> c \<in> set vs)"

definition select_one :: "node \<Rightarrow> selector \<Rightarrow> node option" where
  "select_one soup sel = find (selector_matches sel) (descendant_tags soup)"

fun try_selectors :: "node \<Rightarrow> selector list \<Rightarrow> node option" where
  "try_selectors soup [] = None"
| "try_selectors soup (sel # rest) =
     (case select_one soup sel of
        None \<Rightarrow> try_selectors soup rest
      | Some candidate \<Rightarrow>
          if length (get_text [] candidate) > MIN_MAIN_CONTENT_LENGTH \<and> \<not> is_likely_boilerplate candidate
          then Some candidate
          else try_selectors soup rest)"

fun walk :: "node list \<Rightarrow> node \<Rightarrow> (node list \<times> node) list" where
  "walk parents (Text s) = []"
| "walk parents (Element nm as cs) =
     (parents, Element nm as cs) # concat (map (walk (Element nm as cs # parents)) cs)"

definition containers :: "node \<Rightarrow> (node list \<times> node) list" where
  "containers soup =
     filter (\<lambda>(parents, container). node_name container \<in> set [''div'', ''section'', ''td''])
       (concat (map (walk []) (node_contents soup)))"

definition tag_find :: "node \<Rightarrow> node \<Rightarrow> bool" where
  "tag_find outer inner = (inner \<in> set (descendant_tags outer))"

definition score_of :: "node \<Rightarrow> rat" where
  "score_of container =
     (let text_length = length (get_text [] container);
          child_penalty = length (filter is_likely_boilerplate (child_tags container))
      in of_nat text_length / (1 + of_nat child_penalty))"

definition is_nested_in_better :: "(node \<times> rat) list \<Rightarrow> node list \<Rightarrow> rat \<Rightarrow> bool" where
  "is_nested_in_better candidates parents score =
     list_ex (\<lambda>parent. case map_of candidates parent of
                          None \<Rightarrow> False
                        | Some parent_score \<Rightarrow> parent_score > score * (11 / 10)) parents"

fun check_existing :: "node \<Rightarrow> rat \<Rightarrow> (node \<times> rat) list \<Rightarrow> node list \<Rightarrow> bool \<times> node list" where
  "check_existing container score [] children_to_remove = (True, children_to_remove)"
| "check_existing container score ((existing_candidate, existing_score) # rest) children_to_remove =
     (if tag_find container existing_candidate then
        (if score < existing_score * (11 / 10) then (False, children_to_remove)
         else check_existing container score rest (children_to_remove @ [existing_candidate]))
      else if tag_find existing_candidate container then
        (if existing_score > score * (11 / 10) then (False, children_to_remove)
         else check_existing container score rest children_to_remove)
      else check_existing container score rest children_to_remove)"

definition scan_step :: "(node \<times> rat) list \<Rightarrow> node list \<times> node \<Rightarrow> (node \<times> rat) list" where
  "scan_step candidates pc =
     (case pc of (parents, container) \<Rightarrow>
        if is_likely_boilerplate container then candidates
        else if length (get_text [] container) < MIN_CANDIDATE_TEXT_LENGTH then candidates
        else if is_nested_in_better candidates parents (score_of container) then candidates
        else
          (case check_existing container (score_of container) candidates [] of
             (should_add, children_to_remove) \<Rightarrow>
               if should_add
               then dict_set (filter (\<lambda>(k, v). k \<notin> set children_to_remove) candidates)
                      container (score_of container)
               else candidates))"

definition density_candidates :: "node \<Rightarrow> (node \<times> rat) list" where
  "density_candidates soup = foldl scan_step [] (containers soup)"

fun max_by_score :: "(node \<times> rat) \<Rightarrow> (node \<times> rat) list \<Rightarrow> node \<times> rat" where
  "max_by_score best [] = best"
| "max_by_score best (item # items) =
     (if snd item > snd best then max_by_score item items else max_by_score best items)"

definition soup_body :: "node \<Rightarrow> node option" where
  "soup_body soup = find (has_name ''body'') (descendant_tags soup)"

definition extract_main_content :: "node \<Rightarrow> node" where
  "extract_main_content soup =
     (case try_selectors soup selectors of
        Some potential_main_content \<Rightarrow> potential_main_content
      | None \<Rightarrow>
          (case density_candidates soup of
             item # items \<Rightarrow> fst (max_by_score item items)
           | [] \<Rightarrow> (case soup_body soup of Some body \<Rightarrow> body | None \<Rightarrow> soup)))"

definition x_text :: "nat \<Rightarrow> string" where
  "x_text n = replicate n (CHR ''x'')"

definition main_150 :: node where
  "main_150 = Element ''main'' [] [Text (x_text 150)]"

definition doc_main_150 :: node where
  "doc_main_150 =
     Element ''[document]'' [] [Element ''html'' [] [Element ''body'' [] [main_150]]]"

definition inner_div_100 :: node where
  "inner_div_100 = Element ''div'' [] [Text (x_text 100)]"

definition outer_div_100 :: node where
  "outer_div_100 = Element ''div'' [] [inner_div_100]"

definition doc_nested_divs :: node where
  "doc_nested_divs =
     Element ''[document]'' [] [Element ''html'' [] [Element ''body'' [] [outer_div_100]]]"


definition keys_ok :: "(node \<times> rat) list \<Rightarrow> bool" where
  "keys_ok candidates =
     list_all (\<lambda>(k, s). \<not> is_likely_boilerplate k \<and>
        MIN_CANDIDATE_TEXT_LENGTH \<le> length (get_text [] k) \<and> s = score_of k) candidates"

section \<open>Stripping non-content markup\<close>

definition NON_CONTENT_TAGS :: "string set" where
  "NON_CONTENT_TAGS = {
     ''script'', ''style'', ''link'', ''meta'',
     ''img'', ''picture'', ''figure'', ''figcaption'', ''svg'', ''canvas'', ''video'', ''audio'', ''iframe'',
     ''nav'', ''aside'', ''header'', ''footer'',
     ''form'', ''input'', ''button'', ''select'', ''textarea'', ''label'',
     ''noscript'', ''template'', ''map'', ''area'', ''object'', ''embed'', ''source''}"

fun decompose_where :: "(node \<Rightarrow> bool) \<Rightarrow> node \<Rightarrow> node" where
  "decompose_where P (Text s) = Text s"
| "decompose_where P (Element nm as cs) =
     Element nm as (map (decompose_where P) (filter (\<lambda>c. \<not> (is_tag c \<and> P c)) cs))"

definition attr_text :: "attr_value \<Rightarrow> string" where
  "attr_text v = (case v of AStr s \<Rightarrow> s | AList vs \<Rightarrow> join '' '' vs)"

definition has_hidden_attr :: "node \<Rightarrow> bool" where
  "has_hidden_attr n = (attr_get n ''hidden'' \<noteq> None)"

definition has_hiding_style :: "node \<Rightarrow> bool" where
  "has_hiding_style n =
     (case attr_get n ''style'' of
        None \<Rightarrow> False
      | Some v \<Rightarrow> contains (attr_text v) ''display: none'' \<or> contains (attr_text v) ''display:none'' \<or>
                  contains (attr_text v) ''visibility: hidden'')"

definition aria_hidden_empty :: "node \<Rightarrow> bool" where
  "aria_hidden_empty n =
     ((case attr_get n ''aria-hidden'' of
         None \<Rightarrow> False
       | Some (AStr s) \<Rightarrow> s = ''true''
       | Some (AList vs) \<Rightarrow> ''true'' \<in> set vs \<or> join '' '' vs = ''true'') \<and>
      get_text [] n = [])"

definition strip_undesirables :: "node \<Rightarrow> node" where
  "strip_undesirables soup =
     decompose_where (\<lambda>n. node_name n \<in> NON_CONTENT_TAGS)
       (decompose_where aria_hidden_empty
         (decompose_where has_hiding_style
           (decompose_where has_hidden_attr soup)))"

section \<open>Post-processing\<close>

definition normalize_string :: "string \<Rightarrow> string" where
  "normalize_string s = strip (collapse_ws s)"

fun normalize_ws :: "string \<Rightarrow> node \<Rightarrow> node list" where
  "normalize_ws parent_name (Text s) =
     (if parent_name \<notin> set [''pre'', ''code'', ''style'', ''script'']
      then (if normalize_string s \<noteq> [] then [Text (normalize_string s)] else [])
      else [Text s])"
| "normalize_ws parent_name (Element nm as cs) =
     [Element nm as (concat (map (normalize_ws nm) cs))]"

definition whitespace_pass :: "node \<Rightarrow> node" where
  "whitespace_pass soup =
     (case soup of
        Text s \<Rightarrow> Text s
      | Element nm as cs \<Rightarrow> Element nm as (concat (map (normalize_ws nm) cs)))"

definition is_empty_tag :: "node \<Rightarrow> bool" where
  "is_empty_tag n =
     (case n of
        Text s \<Rightarrow> False
      | Element nm as cs \<Rightarrow> nm \<notin> set [''br'', ''hr''] \<and> cs = [] \<and> as = [])"

fun removed_count :: "node \<Rightarrow> nat" where
  "removed_count (Text s) = 0"
| "removed_count (Element nm as cs) =
     length (filter is_empty_tag cs) + sum_list (map removed_count cs)"

fun prune_pass :: "node \<Rightarrow> node" where
  "prune_pass (Text s) = Text s"
| "prune_pass (Element nm as cs) =
     Element nm as (map prune_pass (filter (\<lambda>c. \<not> is_empty_tag c) cs))"

fun count_tags :: "node \<Rightarrow> nat" where
  "count_tags (Text s) = 0"
| "count_tags (Element nm as cs) = Suc (sum_list (map count_tags cs))"

lemma prune_pass_count: "count_tags (prune_pass n) + removed_count n = count_tags n"
proof (induction n rule: prune_pass.induct)
  case (1 s)
  then show ?case by simp
next
  case (2 nm as cs)
  have "sum_list (map count_tags (map prune_pass (filter (\<lambda>c. \<not> is_empty_tag c) xs))) +
        (length (filter is_empty_tag xs) + sum_list (map removed_count xs)) =
        sum_list (map count_tags xs)" if "set xs \<subseteq> set cs" for xs
    using that
  proof (induction xs)
    case Nil
    then show ?case by simp
  next
    case (Cons x xs)
    show ?case
    proof (cases "is_empty_tag x")
      case True
      then have "count_tags x = 1" "removed_count x = 0"
        by (cases x; simp add: is_empty_tag_def)+
      with True Cons show ?thesis by simp
    next
      case False
      with Cons.prems have "count_tags (prune_pass x) + removed_count x = count_tags x"
        using "2.IH"[of x] by simp
      with False Cons show ?thesis by simp
    qed
  qed
  from this[of cs] show ?case by simp
qed

function prune_loop :: "node \<Rightarrow> node" where
  "prune_loop soup = (if removed_count soup = 0 then soup else prune_loop (prune_pass soup))"
  by pat_completeness auto
termination
proof (relation "measure count_tags")
  show "wf (measure count_tags)" by simp
next
  fix soup :: node
  assume "removed_count soup \<noteq> 0"
  then show "(prune_pass soup, soup) \<in> measure count_tags"
    using prune_pass_count[of soup] by simp
qed

declare prune_loop.simps [simp del]

fun tag_paths :: "string \<Rightarrow> nat list \<Rightarrow> node \<Rightarrow> nat list list"
  and tag_paths_list :: "string \<Rightarrow> nat list \<Rightarrow> nat \<Rightarrow> node list \<Rightarrow> nat list list" where
  "tag_paths nm p (Text s) = []"
| "tag_paths nm p (Element nm' as cs) = (if nm' = nm then [p] else []) @ tag_paths_list nm p 0 cs"
| "tag_paths_list nm p i [] = []"
| "tag_paths_list nm p i (c # cs) = tag_paths nm (p @ [i]) c @ tag_paths_list nm p (Suc i) cs"

fun get_at :: "node \<Rightarrow> nat list \<Rightarrow> node option" where
  "get_at n [] = Some n"
| "get_at (Text s) (i # p) = None"
| "get_at (Element nm as cs) (i # p) = (if i < length cs then get_at (cs ! i) p else None)"

fun update_at :: "(node \<Rightarrow> node) \<Rightarrow> nat list \<Rightarrow> node \<Rightarrow> node" where
  "update_at f [] n = f n"
| "update_at f (i # p) (Text s) = Text s"
| "update_at f (i # p) (Element nm as cs) =
     (if i < length cs then Element nm as (cs[i := update_at f p (cs ! i)]) else Element nm as cs)"

fun delete_at :: "nat list \<Rightarrow> node \<Rightarrow> node" where
  "delete_at [] n = n"
| "delete_at (i # p) (Text s) = Text s"
| "delete_at [i] (Element nm as cs) = Element nm as (take i cs @ drop (Suc i) cs)"
| "delete_at (i # j # p) (Element nm as cs) =
     (if i < length cs then Element nm as (cs[i := delete_at (j # p) (cs ! i)]) else Element nm as cs)"

definition next_sibling :: "node \<Rightarrow> nat list \<Rightarrow> node option" where
  "next_sibling soup p = (if p = [] then None else get_at soup (butlast p @ [Suc (last p)]))"

definition append_contents :: "node list \<Rightarrow> node \<Rightarrow> node" where
  "append_contents new n = (case n of Text s \<Rightarrow> Text s | Element nm as cs \<Rightarrow> Element nm as (cs @ new))"

definition merge_step :: "node \<Rightarrow> nat list \<times> nat list \<Rightarrow> node" where
  "merge_step soup pq =
     (case pq of (prev_path, current_path) \<Rightarrow>
        (case (get_at soup prev_path, get_at soup current_path) of
           (Some prev_p, Some current_p) \<Rightarrow>
             if next_sibling soup prev_path = Some current_p \<and> node_attrs current_p = node_attrs prev_p
             then
               (let separator = (if get_text [] prev_p \<noteq> [] \<and> get_text [] current_p \<noteq> []
                                 then [Text '' ''] else [])
                in delete_at current_path
                     (update_at (append_contents (separator @ node_contents current_p)) prev_path soup))
             else soup
         | _ \<Rightarrow> soup))"

definition merge_paragraphs :: "node \<Rightarrow> node" where
  "merge_paragraphs soup =
     (let paragraphs = tag_paths ''p'' [] soup
      in foldl merge_step soup (rev (zip paragraphs (tl paragraphs))))"

definition normalize_text_content :: "node \<Rightarrow> node" where
  "normalize_text_content soup = merge_paragraphs (prune_loop (whitespace_pass soup))"

section \<open>Metadata injector\<close>

definition meta_section :: "string \<Rightarrow> string \<Rightarrow> node" where
  "meta_section original_url now =
     Element ''section'' [(''role'', AStr ''complementary''), (''aria-label'', AStr ''Document Metadata'')]
       [Element ''p'' []
          [Element ''strong'' [] [Text ''Source URL: ''],
           Element ''a'' [(''href'', AStr original_url)] [Text original_url]],
        Element ''p'' []
          [Element ''strong'' [] [Text ''Content Retrieved: ''], Text now],
        Element ''hr'' [] []]"

fun insert_before_first_tag :: "node list \<Rightarrow> node list \<Rightarrow> node list" where
  "insert_before_first_tag new [] = new"
| "insert_before_first_tag new (c # cs) =
     (if is_tag c then new @ c # cs else c # insert_before_first_tag new cs)"

definition inject_metadata :: "string \<Rightarrow> string \<Rightarrow> string \<Rightarrow> node \<Rightarrow> node" where
  "inject_metadata original_url original_title now body =
     (case body of
        Text s \<Rightarrow> Text s
      | Element nm as cs \<Rightarrow>
          (let with_meta = insert_before_first_tag [meta_section original_url now] cs;
               body_h1 = find (has_name ''h1'') (concat (map tags_of with_meta))
           in if body_h1 = None \<and> original_title \<noteq> []
              then Element nm as (insert_before_first_tag
                     [meta_section original_url now, Element ''h1'' [] [Text original_title]] cs)
              else Element nm as with_meta))"

definition add_llm_metadata :: "node \<Rightarrow> string \<Rightarrow> string \<Rightarrow> string \<Rightarrow> node" where
  "add_llm_metadata soup original_url original_title now =
     (case tag_paths ''body'' [] soup of
        [] \<Rightarrow> soup
      | body_path # others \<Rightarrow> update_at (inject_metadata original_url original_title now) body_path soup)"

section \<open>Pipeline\<close>

fun tag_string :: "node \<Rightarrow> string option" where
  "tag_string (Text s) = Some s"
| "tag_string (Element nm as [c]) = tag_string c"
| "tag_string (Element nm as cs) = None"

definition original_title_of :: "node \<Rightarrow> string" where
  "original_title_of soup =
     (case find (has_name ''title'') (descendant_tags soup) of
        None \<Rightarrow> ''Untitled Document''
      | Some original_title_tag \<Rightarrow>
          (case tag_string original_title_tag of
             None \<Rightarrow> ''Untitled Document''
           | Some s \<Rightarrow> if s \<noteq> [] then strip s else ''Untitled Document''))"

definition lang_of :: "node \<Rightarrow> attr_value" where
  "lang_of soup =
     (case find (has_name ''html'') (descendant_tags soup) of
        None \<Rightarrow> AStr ''en''
      | Some html \<Rightarrow>
          (case attr_get html ''lang'' of
             None \<Rightarrow> AStr ''en''
           | Some v \<Rightarrow> if truthy v then v else AStr ''en''))"

definition new_soup :: "attr_value \<Rightarrow> string \<Rightarrow> node list \<Rightarrow> node" where
  "new_soup lang title body_contents =
     Element ''[document]'' []
       [Element ''html'' [(''lang'', lang)]
          [Element ''head'' []
             [Element ''meta'' [(''charset'', AStr ''utf-8'')] [],
              Element ''title'' [] [Text title]],
           Element ''body'' [] body_contents]]"

definition placeholder :: node where
  "placeholder = Element ''p'' [] [Element ''em'' []
     [Text ''[URL Cleaner: No processable content found after filtering. The original page might have been dynamic, empty, or primarily non-textual.]'']]"

definition cleaned_body :: "lib \<Rightarrow> string \<Rightarrow> node \<Rightarrow> node list" where
  "cleaned_body L original_url main_content_element =
     (let source_elements =
            (if node_name main_content_element = ''body'' then node_contents main_content_element
             else [main_content_element])
      in concat (map (\<lambda>element.
           append_cleaned (clean_element_recursively L original_url 0 30 element)) source_elements))"

definition build_new_soup :: "lib \<Rightarrow> node \<Rightarrow> string \<Rightarrow> node" where
  "build_new_soup L parsed original_url =
     (let original_title = original_title_of parsed;
          soup = strip_undesirables parsed;
          main_content_element = extract_main_content soup;
          body_contents = cleaned_body L original_url main_content_element
      in new_soup (lang_of soup) (''Cleaned: '' @ original_title)
           (if body_contents = [] then [placeholder] else body_contents))"

definition clean_soup :: "lib \<Rightarrow> string \<Rightarrow> node \<Rightarrow> string \<Rightarrow> node" where
  "clean_soup L now parsed original_url =
     add_llm_metadata (normalize_text_content (build_new_soup L parsed original_url))
       original_url (original_title_of parsed) now"

definition clean_html_try :: "lib \<Rightarrow> string \<Rightarrow> string \<Rightarrow> string \<Rightarrow> exn + string option" where
  "clean_html_try L now html_content original_url =
     (case bs_parse L html_content of
        Inl e \<Rightarrow> Inl e
      | Inr parsed \<Rightarrow>
          (case prettify L (clean_soup L now parsed original_url) of
             Inl e \<Rightarrow> Inl e
           | Inr cleaned_html \<Rightarrow>
               (case lxml_fromstring L cleaned_html of
                  None \<Rightarrow> Inr (Some cleaned_html)
                | Some e \<Rightarrow>
                    if e \<in> {XMLSyntaxError, ParserError} then Inr (Some cleaned_html) else Inl e)))"

definition clean_html_content :: "lib \<Rightarrow> string \<Rightarrow> string \<Rightarrow> string \<Rightarrow> exn + string option" where
  "clean_html_content L now html_content original_url =
     (case clean_html_try L now html_content original_url of
        Inl e \<Rightarrow> Inr None
      | Inr cleaned \<Rightarrow> Inr cleaned)"

section \<open>Stand-ins for the libraries, and example documents\<close>

text \<open>
  The parser, the URL functions, the serializer and the validator are library code; the
  model takes them as the fields of a \<open>lib\<close>. For evaluating examples, \<open>test_lib\<close> fixes
  them: it parses one page, resolves the one relative reference of the examples, reads a
  scheme up to the first colon, and serializes with \<open>render\<close>.
\<close>

definition render_attr :: "string \<times> attr_value \<Rightarrow> string" where
  "render_attr kv = '' '' @ fst kv @ ''='' @ [CHR 0x22] @ attr_text (snd kv) @ [CHR 0x22]"

fun render :: "node \<Rightarrow> string" where
  "render (Text s) = s"
| "render (Element nm as cs) =
     ''<'' @ nm @ concat (map render_attr as) @ ''>'' @ concat (map render cs) @ ''</'' @ nm @ ''>''"

definition doc_two_paragraphs :: node where
  "doc_two_paragraphs =
     Element ''[document]'' [] [Element ''html'' [] [Element ''body'' []
       [Element ''p'' [] [Text ''A''], Element ''p'' [] [Text ''B'']]]]"


definition test_lib :: lib where
  "test_lib = \<lparr>
     bs_parse = (\<lambda>html. if html = ''<p>A</p><p>B</p>'' then Inr doc_two_paragraphs else Inl ParserError),
     urljoin = (\<lambda>base url.
       if base = ''https://e.com/y/'' \<and> url = ''/x'' then Inr ''https://e.com/x'' else Inr url),
     urlparse_scheme = (\<lambda>url.
       Inr (if CHR '':'' \<in> set url then takeWhile (\<lambda>c. c \<noteq> CHR '':'') url else [])),
     str_of_list = concat,
     prettify = (\<lambda>doc. Inr (render doc)),
     lxml_fromstring = (\<lambda>html. None) \<rparr>"

section \<open>Predicates over documents\<close>

definition sub_elements :: "(node \<Rightarrow> bool) \<Rightarrow> node \<Rightarrow> bool" where
  "sub_elements P n = list_all (all_elements P) (node_contents n)"

definition content_free :: "(node \<Rightarrow> bool) \<Rightarrow> bool" where
  "content_free P = (\<forall>nm as cs cs'. P (Element nm as cs) = P (Element nm as cs'))"

definition is_charset_meta :: "node \<Rightarrow> bool" where
  "is_charset_meta e = (has_name ''meta'' e \<and> node_attrs e = [(''charset'', AStr ''utf-8'')])"

definition is_metadata_section :: "node \<Rightarrow> bool" where
  "is_metadata_section e =
     (has_name ''section'' e \<and>
      node_attrs e = [(''role'', AStr ''complementary''), (''aria-label'', AStr ''Document Metadata'')])"

definition output_element_ok :: "node \<Rightarrow> bool" where
  "output_element_ok e =
     (allow_listed e \<or> is_unwrapped e \<or> is_charset_meta e \<or> is_metadata_section e)"

section \<open>Properties of the transformer\<close>



lemma allowed_result:
  "depth \<le> max_depth \<Longrightarrow> lower nm \<in> LLM_OPTIMIZED_TAGS \<Longrightarrow>
   clean_element_recursively L u depth max_depth (Element nm as cs) =
     (if clean_children L u depth max_depth cs = [] \<and> lower nm \<notin> {''br'', ''hr''} then None
      else Some (Element nm (clean_attrs L u (lower nm) as []) (clean_children L u depth max_depth cs)))"
  by (simp add: clean_children_def Let_def)


lemma in_dict_set:
  "(k, v) \<in> set (dict_set d k' v') \<Longrightarrow> (k, v) = (k', v') \<or> (k, v) \<in> set d"
  by (induction d) (auto split: if_splits)

lemma clean_attrs_origin:
  "(k, v) \<in> set (clean_attrs L u t as acc) \<Longrightarrow>
   (k, v) \<in> set acc \<or>
   (lower k \<in> allowed_attrs_for_tag t \<and>
    (\<exists>raw. (k, raw) \<in> set as \<and> clean_attr_value L u t (lower k) raw = Some v))"
proof (induction as arbitrary: acc)
  case Nil
  then show ?case by simp
next
  case (Cons a as)
  obtain attr raw where a: "a = (attr, raw)" by (cases a)
  show ?case
    using Cons.prems Cons.IH
    by (fastforce simp: a split: if_splits option.splits dest: in_dict_set)
qed




lemma td_allowed: "''td'' \<in> LLM_OPTIMIZED_TAGS" "lower ''td'' = ''td''"
  by (simp_all add: LLM_OPTIMIZED_TAGS_def lower_def lower_char_def is_upper_def)


lemma list_all_concat: "list_all P (concat xss) = list_all (list_all P) xss"
  by (induction xss) auto

lemma clean_output_elements:
  "clean_element_recursively L u depth max_depth n = Some r \<Longrightarrow>
   all_elements (\<lambda>e. allow_listed e \<or> is_unwrapped e) r"
proof (induction L u depth max_depth n arbitrary: r rule: clean_element_recursively.induct)
  case (1 L u depth max_depth s)
  then show ?case by (auto split: if_splits)
next
  case (2 L u depth max_depth nm as cs)
  let ?Q = "\<lambda>e. allow_listed e \<or> is_unwrapped e"
  from "2.prems" have d: "\<not> max_depth < depth" by (auto split: if_splits)
  have kids: "all_elements ?Q x"
    if "c \<in> set cs" "clean_element_recursively L u (depth + 1) max_depth c = Some x" for c x
  proof (cases "lower nm \<in> LLM_OPTIMIZED_TAGS")
    case True
    then show ?thesis using "2.IH"(2)[OF d _ _ that(1) that(2)] by simp
  next
    case False
    then show ?thesis using "2.IH"(1)[OF d _ that(1) that(2)] by simp
  qed
  show ?case
  proof (cases "lower nm \<in> LLM_OPTIMIZED_TAGS")
    case False
    with "2.prems" d have r: "r = Element ''div'' []
        (concat (map (\<lambda>child. append_fragment
           (clean_element_recursively L u (depth + 1) max_depth child)) cs))"
      by (auto simp: Let_def split: if_splits)
    show ?thesis unfolding r
      using kids
      by (auto simp: is_unwrapped_def list_all_concat list_all_iff append_fragment_def split: option.splits)
  next
    case True
    with "2.prems" d have r: "r = Element nm (clean_attrs L u (lower nm) as [])
        (concat (map (\<lambda>child. append_cleaned
           (clean_element_recursively L u (depth + 1) max_depth child)) cs))"
      by (auto simp: Let_def split: if_splits)
    have attrs: "list_all (\<lambda>(k, v). lower k \<in> allowed_attrs_for_tag (lower nm))
        (clean_attrs L u (lower nm) as [])"
      using clean_attrs_origin[of _ _ L u "lower nm" as "[]"]
      by (auto simp: list_all_iff)
    have "list_all (all_elements ?Q) (append_cleaned
           (clean_element_recursively L u (depth + 1) max_depth c))" if "c \<in> set cs" for c
    proof (cases "clean_element_recursively L u (depth + 1) max_depth c")
      case None
      then show ?thesis by (simp add: append_cleaned_def)
    next
      case (Some x)
      from kids[OF that Some] Some show ?thesis
        by (cases x) (auto simp: append_cleaned_def node_contents_def)
    qed
    then show ?thesis unfolding r
      using True attrs
      by (auto simp: allow_listed_def list_all_concat list_all_iff)
  qed
qed

subsection \<open>Href policy\<close>




subsection \<open>Discarding empty elements\<close>

text \<open>
  Claim C5, as amended. An allow-listed element rebuilt within the depth bound is discarded
  exactly when none of its children survives cleaning and its tag is not a void element
  (\<open>br\<close>, \<open>hr\<close>); the attributes it retains play no part. A void element is always
  retained, with its cleaned attributes and children.
\<close>

theorem C5_discard_rule:
  assumes "depth \<le> max_depth" and "lower nm \<in> LLM_OPTIMIZED_TAGS"
  shows "((clean_element_recursively L u depth max_depth (Element nm as cs) = None) =
            (clean_children L u depth max_depth cs = [] \<and> lower nm \<notin> {''br'', ''hr''})) \<and>
         (lower nm \<in> {''br'', ''hr''} \<longrightarrow>
            clean_element_recursively L u depth max_depth (Element nm as cs) =
              Some (Element nm (clean_attrs L u (lower nm) as [])
                      (clean_children L u depth max_depth cs)))"
  using assms
  by (simp add: allowed_result del: clean_element_recursively.simps)

text \<open>
  The theorem at a table cell that has a \<open>colspan\<close> and no content: it is discarded.
\<close>

theorem C5_discard_rule_witness:
  "(0::nat) \<le> 30 \<and> lower ''td'' \<in> LLM_OPTIMIZED_TAGS \<and>
   clean_children test_lib ''https://e.com/'' 0 30 [] = [] \<and>
   clean_element_recursively test_lib ''https://e.com/'' 0 30
     (Element ''td'' [(''colspan'', AStr ''2'')] []) = None"
proof -
  have h1: "(0::nat) \<le> 30" by simp
  have h2: "lower ''td'' \<in> LLM_OPTIMIZED_TAGS" by (simp add: td_allowed)
  have h3: "clean_children test_lib ''https://e.com/'' 0 30 [] = []"
    by (simp add: clean_children_def)
  have h4: "lower ''td'' \<notin> {''br'', ''hr''}" by (simp add: td_allowed)
  from C5_discard_rule[OF h1 h2, of test_lib "''https://e.com/''" "[(''colspan'', AStr ''2'')]" "[]"]
  have "clean_element_recursively test_lib ''https://e.com/'' 0 30
     (Element ''td'' [(''colspan'', AStr ''2'')] []) = None"
    using h3 h4 by blast
  with h1 h2 h3 show ?thesis by blast
qed

text \<open>
  The claim as stated fails at the same cell: the rebuilt element would retain its
  \<open>colspan\<close> attribute, has no children, and is discarded all the same.
\<close>

theorem C5_counterexample:
  "clean_attrs test_lib ''https://e.com/'' ''td'' [(''colspan'', AStr ''2'')] [] =
     [(''colspan'', AStr ''2'')] \<and>
   clean_element_recursively test_lib ''https://e.com/'' 0 30
     (Element ''td'' [(''colspan'', AStr ''2'')] []) = None"
  by (simp add: td_allowed allowed_attrs_for_tag_def ATTRIBUTE_ALLOW_LIST_def lower_def
      lower_char_def is_upper_def clean_attr_value_def truthy_def)

section \<open>Properties of the locator\<close>

lemma strip_x_text: "strip (x_text n) = x_text n"
proof -
  have "dropWhile is_space (replicate n (CHR ''x'')) = replicate n (CHR ''x'')"
    by (cases n) (simp_all add: is_space_def)
  then show ?thesis
    by (simp add: strip_def lstrip_def rstrip_def x_text_def)
qed

lemma startswith_x_text:
  "p \<noteq> [] \<Longrightarrow> hd p \<noteq> CHR ''x'' \<Longrightarrow> \<not> startswith (x_text n) p"
  by (cases p; cases n) (simp_all add: x_text_def)

lemma contains_x_text:
  "p \<noteq> [] \<Longrightarrow> hd p \<noteq> CHR ''x'' \<Longrightarrow> \<not> contains (x_text n) p"
proof (induction n)
  case 0
  then show ?case by (simp add: x_text_def)
next
  case (Suc n)
  have "\<not> startswith (x_text (Suc n)) p" using Suc.prems by (rule startswith_x_text)
  then show ?case using Suc by (simp add: x_text_def)
qed

lemma x_text_nonempty [simp]: "x_text (Suc n) \<noteq> []"
  by (simp add: x_text_def)

lemma lower_x_text: "lower (x_text n) = x_text n"
  by (simp add: lower_def x_text_def lower_char_def is_upper_def)

lemma get_text_single: "get_text sep (Element nm as [Text (x_text (Suc n))]) = x_text (Suc n)"
  by (simp add: get_text_def strip_x_text)

lemma main_150_text: "length (get_text [] main_150) = 150"
proof -
  have "get_text [] main_150 = x_text 150"
    unfolding main_150_def using get_text_single[of "[]" "''main''" "[]" 149] by simp
  then show ?thesis by (simp add: x_text_def)
qed

lemma not_boilerplate_x:
  assumes "lower nm \<notin> set boilerplate_tag_names"
  shows "\<not> is_likely_boilerplate (Element nm [] [Text (x_text (Suc n))])"
proof -
  have "\<not> list_ex (\<lambda>phrase. contains (x_text (Suc n)) phrase) BOILERPLATE_PHRASES"
    by (simp add: BOILERPLATE_PHRASES_def contains_x_text)
  then show ?thesis using assms
    by (simp add: is_likely_boilerplate_def is_tag_def node_name_def attribute_boilerplate_def
        NON_CONTENT_PATTERNS_def attr_get_def node_attrs_def get_text_single child_tags_def
        node_contents_def lower_x_text Let_def)
qed

lemma main_150_not_boilerplate: "\<not> is_likely_boilerplate main_150"
  unfolding main_150_def using not_boilerplate_x[of "''main''" 149]
  by (simp add: boilerplate_tag_names_def lower_def lower_char_def is_upper_def)

lemma try_selectors_doc_main_150: "try_selectors doc_main_150 selectors = None"
  using main_150_text
  by (simp add: selectors_def select_one_def doc_main_150_def descendant_tags_def node_contents_def
      main_150_def has_name_def is_tag_def node_name_def attr_get_def node_attrs_def
      MIN_MAIN_CONTENT_LENGTH_def)

lemma extract_doc_main_150:
  "extract_main_content doc_main_150 = Element ''body'' [] [main_150]"
  using try_selectors_doc_main_150
  by (simp add: extract_main_content_def density_candidates_def containers_def doc_main_150_def
      node_contents_def main_150_def node_name_def soup_body_def descendant_tags_def has_name_def is_tag_def)






lemma scan_step_keys_ok:
  assumes "keys_ok candidates"
  shows "keys_ok (scan_step candidates pc)"
proof -
  obtain parents container where pc: "pc = (parents, container)" by (cases pc)
  obtain should_add rm where ce:
    "check_existing container (score_of container) candidates [] = (should_add, rm)"
    by (cases "check_existing container (score_of container) candidates []")
  have "keys_ok (dict_set (filter (\<lambda>(k, v). k \<notin> set rm) candidates) container (score_of container))"
    if "\<not> is_likely_boilerplate container" "\<not> length (get_text [] container) < MIN_CANDIDATE_TEXT_LENGTH"
    using assms that unfolding keys_ok_def list_all_iff
    by (auto dest!: in_dict_set)
  then show ?thesis using assms by (simp add: scan_step_def pc ce)
qed

lemma density_keys_ok: "keys_ok (density_candidates soup)"
proof -
  have "keys_ok candidates \<Longrightarrow> keys_ok (foldl scan_step candidates xs)" for candidates xs
    by (induction xs arbitrary: candidates) (simp_all add: scan_step_keys_ok)
  then show ?thesis unfolding density_candidates_def by (simp add: keys_ok_def)
qed

lemma max_by_score_mem: "max_by_score best items \<in> set (best # items)"
  by (induction items arbitrary: best) auto

lemma max_by_score_ge_init: "snd best \<le> snd (max_by_score best items)"
proof (induction items arbitrary: best)
  case Nil
  then show ?case by simp
next
  case (Cons i items)
  show ?case using Cons.IH[of i] Cons.IH[of best] by auto
qed

lemma max_by_score_max: "x \<in> set (best # items) \<Longrightarrow> snd x \<le> snd (max_by_score best items)"
proof (induction items arbitrary: best)
  case Nil
  then show ?case by simp
next
  case (Cons i items)
  show ?case
    using Cons.prems Cons.IH[of i] Cons.IH[of best]
      max_by_score_ge_init[of i items] max_by_score_ge_init[of best items]
    by (auto split: if_splits)
qed

lemma try_selectors_Some:
  "try_selectors soup sels = Some c \<Longrightarrow>
   MIN_MAIN_CONTENT_LENGTH < length (get_text [] c) \<and> \<not> is_likely_boilerplate c \<and>
   (\<exists>sel \<in> set sels. select_one soup sel = Some c)"
  by (induction sels) (auto split: option.splits if_splits)

lemma inner_text: "get_text sep inner_div_100 = x_text 100"
  unfolding inner_div_100_def using get_text_single[of sep "''div''" "[]" 99] by simp

lemma outer_text: "get_text sep outer_div_100 = x_text 100"
  using inner_text[of sep]
  by (simp add: outer_div_100_def inner_div_100_def get_text_def)

lemma lower_div: "lower ''div'' = ''div''"
  by (simp add: lower_def lower_char_def is_upper_def)

lemma inner_not_boilerplate: "\<not> is_likely_boilerplate inner_div_100"
  unfolding inner_div_100_def using not_boilerplate_x[of "''div''" 99]
  by (simp add: boilerplate_tag_names_def lower_div)

lemma outer_not_boilerplate: "\<not> is_likely_boilerplate outer_div_100"
proof -
  have "\<not> list_ex (\<lambda>phrase. contains (x_text 100) phrase) BOILERPLATE_PHRASES"
    by (simp add: BOILERPLATE_PHRASES_def contains_x_text)
  moreover have "x_text 100 \<noteq> []" by (simp add: x_text_def)
  moreover have "child_tags outer_div_100 = [inner_div_100]"
    by (simp add: child_tags_def outer_div_100_def inner_div_100_def node_contents_def is_tag_def)
  ultimately show ?thesis
    by (simp add: is_likely_boilerplate_def outer_text lower_x_text Let_def has_name_def
        attribute_boilerplate_def NON_CONTENT_PATTERNS_def attr_get_def)
       (simp add: outer_div_100_def inner_div_100_def is_tag_def node_name_def node_attrs_def
        lower_div boilerplate_tag_names_def)
qed

lemma score_inner: "score_of inner_div_100 = 100"
proof -
  have "child_tags inner_div_100 = []"
    by (simp add: child_tags_def inner_div_100_def node_contents_def is_tag_def)
  then show ?thesis
    by (simp add: score_of_def inner_text x_text_def)
qed

lemma score_outer: "score_of outer_div_100 = 100"
proof -
  have "child_tags outer_div_100 = [inner_div_100]"
    by (simp add: child_tags_def outer_div_100_def inner_div_100_def node_contents_def is_tag_def)
  then show ?thesis
    by (simp add: score_of_def outer_text inner_not_boilerplate x_text_def)
qed

lemma outer_wraps_inner: "tag_find outer_div_100 inner_div_100" "\<not> tag_find inner_div_100 outer_div_100"
  by (simp_all add: tag_find_def descendant_tags_def outer_div_100_def inner_div_100_def node_contents_def)

lemma containers_nested:
  "containers doc_nested_divs =
     [([Element ''body'' [] [outer_div_100], Element ''html'' [] [Element ''body'' [] [outer_div_100]]],
       outer_div_100),
      ([outer_div_100, Element ''body'' [] [outer_div_100],
        Element ''html'' [] [Element ''body'' [] [outer_div_100]]], inner_div_100)]"
  by (simp add: containers_def doc_nested_divs_def node_contents_def node_name_def)
     (simp add: outer_div_100_def inner_div_100_def)

lemma density_nested:
  "density_candidates doc_nested_divs = [(outer_div_100, 100), (inner_div_100, 100)]"
proof -
  have ne: "outer_div_100 \<noteq> inner_div_100" by (simp add: outer_div_100_def inner_div_100_def)
  have s1: "scan_step [] ([Element ''body'' [] [outer_div_100],
        Element ''html'' [] [Element ''body'' [] [outer_div_100]]], outer_div_100) = [(outer_div_100, 100)]"
    by (simp add: scan_step_def outer_not_boilerplate outer_text MIN_CANDIDATE_TEXT_LENGTH_def
        is_nested_in_better_def score_outer) (simp add: x_text_def)
  have s2: "scan_step [(outer_div_100, 100)] ([outer_div_100, Element ''body'' [] [outer_div_100],
        Element ''html'' [] [Element ''body'' [] [outer_div_100]]], inner_div_100)
      = [(outer_div_100, 100), (inner_div_100, 100)]"
    using ne
    by (simp add: scan_step_def inner_not_boilerplate inner_text MIN_CANDIDATE_TEXT_LENGTH_def
        is_nested_in_better_def score_inner outer_wraps_inner) (simp add: x_text_def)
  show ?thesis
    by (simp add: density_candidates_def containers_nested s1 s2)
qed

subsection \<open>Phase A threshold\<close>

text \<open>
  Claim C6, evaluated at the boundary. The document holds a \<open>main\<close> element whose visible
  text is exactly 150 characters long and which the classifier does not regard as
  boilerplate. The selector phase finds it and rejects it, because the comparison with
  \<open>MIN_MAIN_CONTENT_LENGTH\<close> is strict; no selector is accepted and the locator falls back
  to the body.
\<close>

theorem C6_length_150_rejected:
  "length (get_text [] main_150) = 150 \<and>
   \<not> is_likely_boilerplate main_150 \<and>
   select_one doc_main_150 (SelTag ''main'') = Some main_150 \<and>
   try_selectors doc_main_150 selectors = None \<and>
   extract_main_content doc_main_150 = Element ''body'' [] [main_150]"
proof -
  have "select_one doc_main_150 (SelTag ''main'') = Some main_150"
    by (simp add: select_one_def doc_main_150_def descendant_tags_def node_contents_def
        main_150_def has_name_def is_tag_def node_name_def)
  then show ?thesis
    using main_150_text main_150_not_boilerplate try_selectors_doc_main_150 extract_doc_main_150
    by simp
qed

subsection \<open>Phase B candidate pruning\<close>




section \<open>Properties of the post-processors and the pipeline\<close>

lemma content_freeD: "content_free P \<Longrightarrow> P (Element nm as cs) \<Longrightarrow> P (Element nm as cs')"
  unfolding content_free_def by blast

lemma all_elements_replace:
  assumes "content_free P" and "all_elements P (Element nm as cs)" and "list_all (all_elements P) cs'"
  shows "all_elements P (Element nm as cs')"
  using assms(2,3) content_freeD[OF assms(1), of nm as cs cs'] by simp

lemma all_elements_sub: "all_elements P n \<Longrightarrow> sub_elements P n"
  by (cases n) (simp_all add: sub_elements_def node_contents_def)

lemma normalize_ws_elements:
  "content_free P \<Longrightarrow> all_elements P n \<Longrightarrow> list_all (all_elements P) (normalize_ws parent n)"
proof (induction parent n rule: normalize_ws.induct)
  case (1 parent s)
  then show ?case by simp
next
  case (2 parent nm as cs)
  then have "list_all (all_elements P) (concat (map (normalize_ws nm) cs))"
    by (auto simp: list_all_concat list_all_iff)
  with "2.prems" have "all_elements P (Element nm as (concat (map (normalize_ws nm) cs)))"
    using all_elements_replace[of P nm as cs] by blast
  then show ?case by simp
qed

lemma whitespace_pass_sub:
  assumes "content_free P" and "sub_elements P soup"
  shows "sub_elements P (whitespace_pass soup)"
proof (cases soup)
  case (Text s)
  then show ?thesis using assms by (simp add: whitespace_pass_def)
next
  case (Element nm as cs)
  have "list_all (all_elements P) (normalize_ws nm c)" if "c \<in> set cs" for c
    using that assms Element
    by (intro normalize_ws_elements) (simp_all add: sub_elements_def node_contents_def list_all_iff)
  then show ?thesis
    using Element
    by (simp add: whitespace_pass_def sub_elements_def node_contents_def list_all_concat list_all_iff)
qed

lemma prune_pass_elements:
  "content_free P \<Longrightarrow> all_elements P n \<Longrightarrow> all_elements P (prune_pass n)"
proof (induction n rule: prune_pass.induct)
  case (1 s)
  then show ?case by simp
next
  case (2 nm as cs)
  then have "list_all (all_elements P) (map prune_pass (filter (\<lambda>c. \<not> is_empty_tag c) cs))"
    by (auto simp: list_all_iff)
  with "2.prems" have "all_elements P (Element nm as (map prune_pass (filter (\<lambda>c. \<not> is_empty_tag c) cs)))"
    using all_elements_replace[of P nm as cs] by blast
  then show ?case by simp
qed

lemma prune_pass_sub:
  "content_free P \<Longrightarrow> sub_elements P n \<Longrightarrow> sub_elements P (prune_pass n)"
  by (cases n) (auto simp: sub_elements_def node_contents_def list_all_iff dest: prune_pass_elements)

lemma prune_loop_sub:
  "content_free P \<Longrightarrow> sub_elements P n \<Longrightarrow> sub_elements P (prune_loop n)"
proof (induction n rule: prune_loop.induct)
  case (1 soup)
  show ?case
  proof (cases "removed_count soup = 0")
    case True
    then show ?thesis using "1.prems" by (subst prune_loop.simps) simp
  next
    case False
    then show ?thesis
      using "1.IH"[OF False "1.prems"(1) prune_pass_sub[OF "1.prems"]]
      by (subst prune_loop.simps) simp
  qed
qed

lemma list_all_update:
  "list_all P xs \<Longrightarrow> P x \<Longrightarrow> list_all P (xs[i := x])"
  by (auto simp: list_all_iff dest: set_update_subset_insert[THEN subsetD])

lemma update_at_elements:
  "content_free P \<Longrightarrow> (\<And>m. all_elements P m \<Longrightarrow> all_elements P (f m)) \<Longrightarrow>
   all_elements P n \<Longrightarrow> all_elements P (update_at f p n)"
proof (induction f p n rule: update_at.induct)
  case (1 f n)
  then show ?case by simp
next
  case (2 f i p s)
  then show ?case by simp
next
  case (3 f i p nm as cs)
  show ?case
  proof (cases "i < length cs")
    case True
    have ci: "all_elements P (cs ! i)" using "3.prems"(3) True by (simp add: list_all_length)
    have "all_elements P (update_at f p (cs ! i))"
      using "3.IH"[OF True "3.prems"(1,2) ci] .
    then have "list_all (all_elements P) (cs[i := update_at f p (cs ! i)])"
      using "3.prems"(3) by (simp add: list_all_update)
    with "3.prems"(1,3) have "all_elements P (Element nm as (cs[i := update_at f p (cs ! i)]))"
      using all_elements_replace[of P nm as cs] by blast
    then show ?thesis using True by simp
  next
    case False
    then show ?thesis using "3.prems" by simp
  qed
qed

lemma update_at_sub:
  assumes "content_free P" and "\<And>m. all_elements P m \<Longrightarrow> all_elements P (f m)"
    and "\<And>m. sub_elements P m \<Longrightarrow> sub_elements P (f m)" and "sub_elements P n"
  shows "sub_elements P (update_at f p n)"
proof (cases p)
  case Nil
  then show ?thesis using assms by simp
next
  case (Cons i q)
  show ?thesis
  proof (cases n)
    case (Text s)
    then show ?thesis using assms Cons by simp
  next
    case (Element nm as cs)
    show ?thesis
    proof (cases "i < length cs")
      case True
      have "all_elements P (cs ! i)"
        using assms(4) True Element by (simp add: sub_elements_def node_contents_def list_all_length)
      then have "all_elements P (update_at f q (cs ! i))"
        using assms(1,2) by (intro update_at_elements)
      then show ?thesis
        using assms(4) True Element Cons
        by (simp add: sub_elements_def node_contents_def list_all_update)
    next
      case False
      then show ?thesis using assms Cons Element by simp
    qed
  qed
qed

lemma list_all_take_drop:
  "list_all P xs \<Longrightarrow> list_all P (take i xs) \<and> list_all P (drop j xs)"
  by (auto simp: list_all_iff dest: in_set_takeD in_set_dropD)

lemma delete_at_elements:
  "content_free P \<Longrightarrow> all_elements P n \<Longrightarrow> all_elements P (delete_at p n)"
proof (induction p n rule: delete_at.induct)
  case (3 i nm as cs)
  then have "list_all (all_elements P) (take i cs @ drop (Suc i) cs)"
    by (simp add: list_all_take_drop)
  with "3.prems" have "all_elements P (Element nm as (take i cs @ drop (Suc i) cs))"
    using all_elements_replace[of P nm as cs] by blast
  then show ?case by simp
next
  case (4 i j p nm as cs)
  show ?case
  proof (cases "i < length cs")
    case True
    have ci: "all_elements P (cs ! i)" using "4.prems"(2) True by (simp add: list_all_length)
    have "all_elements P (delete_at (j # p) (cs ! i))"
      using "4.IH"[OF True "4.prems"(1) ci] .
    then have "list_all (all_elements P) (cs[i := delete_at (j # p) (cs ! i)])"
      using "4.prems"(2) by (simp add: list_all_update)
    with "4.prems" have "all_elements P (Element nm as (cs[i := delete_at (j # p) (cs ! i)]))"
      using all_elements_replace[of P nm as cs] by blast
    then show ?thesis using True by simp
  next
    case False
    then show ?thesis using "4.prems" by simp
  qed
qed simp_all

lemma delete_at_sub:
  assumes "content_free P" and "sub_elements P n"
  shows "sub_elements P (delete_at p n)"
proof (cases n)
  case (Text s)
  then show ?thesis using assms by (cases p) simp_all
next
  case (Element nm as cs)
  show ?thesis
  proof (cases p)
    case Nil
    then show ?thesis using assms by simp
  next
    case (Cons i q)
    show ?thesis
    proof (cases q)
      case Nil
      then show ?thesis using assms Element Cons
        by (simp add: sub_elements_def node_contents_def list_all_take_drop)
    next
      case (Cons j r)
      show ?thesis
      proof (cases "i < length cs")
        case True
        have "all_elements P (cs ! i)"
          using assms(2) True Element by (simp add: sub_elements_def node_contents_def list_all_length)
        then have "all_elements P (delete_at (j # r) (cs ! i))"
          by (rule delete_at_elements[OF assms(1)])
        then show ?thesis
          using assms(2) True Element \<open>p = i # q\<close> Cons
          by (simp add: sub_elements_def node_contents_def list_all_update)
      next
        case False
        then show ?thesis using assms Element \<open>p = i # q\<close> Cons by simp
      qed
    qed
  qed
qed

lemma get_at_elements:
  "get_at n p = Some m \<Longrightarrow> all_elements P n \<Longrightarrow> all_elements P m"
proof (induction n p rule: get_at.induct)
  case (3 nm as cs i p)
  then show ?case by (auto simp: list_all_length split: if_splits)
qed simp_all

lemma get_at_sub:
  "get_at n p = Some m \<Longrightarrow> sub_elements P n \<Longrightarrow> sub_elements P m"
proof (cases p)
  case Nil
  assume "get_at n p = Some m" "sub_elements P n"
  with Nil show ?thesis by simp
next
  case (Cons i q)
  assume g: "get_at n p = Some m" and s: "sub_elements P n"
  show ?thesis
  proof (cases n)
    case (Text t)
    with g Cons show ?thesis by simp
  next
    case (Element nm as cs)
    with g Cons have i: "i < length cs" and g': "get_at (cs ! i) q = Some m"
      by (auto split: if_splits)
    have "all_elements P (cs ! i)"
      using s i Element by (simp add: sub_elements_def node_contents_def list_all_length)
    from get_at_elements[OF g' this] show ?thesis by (rule all_elements_sub)
  qed
qed

lemma append_contents_elements:
  "content_free P \<Longrightarrow> list_all (all_elements P) new \<Longrightarrow> all_elements P m \<Longrightarrow>
   all_elements P (append_contents new m)"
proof (cases m)
  case (Text s)
  then show ?thesis by (simp add: append_contents_def)
next
  case (Element nm as cs)
  assume "content_free P" "list_all (all_elements P) new" "all_elements P m"
  then have "all_elements P (Element nm as (cs @ new))"
    unfolding Element using all_elements_replace[of P nm as cs "cs @ new"] by simp
  then show ?thesis by (simp add: append_contents_def Element)
qed

lemma append_contents_sub:
  "list_all (all_elements P) new \<Longrightarrow> sub_elements P m \<Longrightarrow> sub_elements P (append_contents new m)"
  by (cases m) (auto simp: append_contents_def sub_elements_def node_contents_def)

lemma merge_step_sub:
  assumes "content_free P" and "sub_elements P soup"
  shows "sub_elements P (merge_step soup pq)"
proof -
  obtain prev_path current_path where pq: "pq = (prev_path, current_path)" by (cases pq)
  have "sub_elements P (delete_at current_path
          (update_at (append_contents (sep @ node_contents current_p)) prev_path soup))"
    if "get_at soup current_path = Some current_p" "list_all (all_elements P) sep" for current_p sep
  proof -
    have "sub_elements P current_p" using get_at_sub[OF that(1) assms(2)] .
    then have new: "list_all (all_elements P) (sep @ node_contents current_p)"
      using that(2) by (simp add: sub_elements_def)
    have "sub_elements P (update_at (append_contents (sep @ node_contents current_p)) prev_path soup)"
      by (rule update_at_sub[OF assms(1) _ _ assms(2)])
         (simp_all add: append_contents_elements[OF assms(1) new] append_contents_sub[OF new])
    then show ?thesis by (rule delete_at_sub[OF assms(1)])
  qed
  then show ?thesis
    using assms(2) by (auto simp: merge_step_def pq Let_def split: option.splits)
qed

lemma merge_paragraphs_sub:
  assumes "content_free P" and "sub_elements P soup"
  shows "sub_elements P (merge_paragraphs soup)"
proof -
  have "sub_elements P s \<Longrightarrow> sub_elements P (foldl merge_step s xs)" for s xs
    by (induction xs arbitrary: s) (simp_all add: merge_step_sub[OF assms(1)])
  then show ?thesis using assms(2) by (simp add: merge_paragraphs_def Let_def)
qed

lemma normalize_text_content_sub:
  "content_free P \<Longrightarrow> sub_elements P soup \<Longrightarrow> sub_elements P (normalize_text_content soup)"
  by (simp add: normalize_text_content_def merge_paragraphs_sub prune_loop_sub whitespace_pass_sub)

lemma insert_before_first_tag_all:
  "list_all Q new \<Longrightarrow> list_all Q cs \<Longrightarrow> list_all Q (insert_before_first_tag new cs)"
  by (induction cs) auto

lemma add_llm_metadata_sub:
  assumes cf: "content_free P" and meta: "all_elements P (meta_section url now)"
    and h1: "all_elements P (Element ''h1'' [] [Text title])" and s: "sub_elements P soup"
  shows "sub_elements P (add_llm_metadata soup url title now)"
proof -
  have new: "list_all (all_elements P) [meta_section url now]"
    "list_all (all_elements P) [meta_section url now, Element ''h1'' [] [Text title]]"
    using meta h1 by simp_all
  have a: "all_elements P (inject_metadata url title now m)" if m: "all_elements P m" for m
  proof (cases m)
    case (Text t)
    then show ?thesis by (simp add: inject_metadata_def)
  next
    case (Element nm as cs)
    have "all_elements P (Element nm as (insert_before_first_tag new' cs))"
      if "list_all (all_elements P) new'" for new'
      using cf m that all_elements_replace[of P nm as cs "insert_before_first_tag new' cs"]
      unfolding Element by (simp add: insert_before_first_tag_all)
    from this[OF new(1)] this[OF new(2)] show ?thesis
      by (simp add: inject_metadata_def Let_def Element)
  qed
  have b: "sub_elements P (inject_metadata url title now m)" if "sub_elements P m" for m
    using that new
    by (cases m) (auto simp: inject_metadata_def Let_def insert_before_first_tag_all
        sub_elements_def node_contents_def)
  show ?thesis
    using s update_at_sub[OF cf a b s]
    by (simp add: add_llm_metadata_def split: list.splits)
qed

lemma content_free_output: "content_free output_element_ok"
  by (simp add: content_free_def output_element_ok_def allow_listed_def is_unwrapped_def
      is_charset_meta_def is_metadata_section_def has_name_def is_tag_def node_name_def node_attrs_def)

lemma lowers:
  "lower ''p'' = ''p''" "lower ''em'' = ''em''" "lower ''h1'' = ''h1''" "lower ''hr'' = ''hr''"
  "lower ''strong'' = ''strong''" "lower ''a'' = ''a''" "lower ''html'' = ''html''"
  "lower ''head'' = ''head''" "lower ''title'' = ''title''" "lower ''body'' = ''body''"
  "lower ''href'' = ''href''" "lower ''lang'' = ''lang''"
  by (simp_all add: lower_def lower_char_def is_upper_def)

lemma meta_section_ok: "all_elements output_element_ok (meta_section url now)"
  by (simp add: meta_section_def output_element_ok_def is_metadata_section_def has_name_def
      is_tag_def node_name_def node_attrs_def allow_listed_def lowers LLM_OPTIMIZED_TAGS_def
      allowed_attrs_for_tag_def ATTRIBUTE_ALLOW_LIST_def)

lemma h1_ok: "all_elements output_element_ok (Element ''h1'' [] [Text title])"
  by (simp add: output_element_ok_def allow_listed_def lowers LLM_OPTIMIZED_TAGS_def)

lemma placeholder_ok: "all_elements output_element_ok placeholder"
  by (simp add: placeholder_def output_element_ok_def allow_listed_def lowers LLM_OPTIMIZED_TAGS_def)

lemma cleaned_ok:
  "list_all (all_elements output_element_ok) (append_cleaned (clean_element_recursively L u d md n))"
proof (cases "clean_element_recursively L u d md n")
  case None
  then show ?thesis by (simp add: append_cleaned_def)
next
  case (Some x)
  have "all_elements (\<lambda>e. allow_listed e \<or> is_unwrapped e) x"
    using clean_output_elements[OF Some] .
  moreover have "all_elements (\<lambda>e. allow_listed e \<or> is_unwrapped e) y \<Longrightarrow>
      all_elements output_element_ok y" for y
    by (induction y) (auto simp: output_element_ok_def list_all_iff)
  ultimately have "all_elements output_element_ok x" by blast
  then show ?thesis
    by (cases x) (auto simp: Some append_cleaned_def node_contents_def)
qed

lemma build_new_soup_ok: "sub_elements output_element_ok (build_new_soup L parsed url)"
proof -
  have "list_all (list_all (all_elements output_element_ok))
      (map (\<lambda>element. append_cleaned (clean_element_recursively L url 0 30 element)) xs)" for xs
    by (induction xs) (simp_all add: cleaned_ok)
  then have body: "list_all (all_elements output_element_ok) (cleaned_body L url m)" for m
    by (simp add: cleaned_body_def Let_def list_all_concat)
  show ?thesis
    using body placeholder_ok
    by (simp add: build_new_soup_def Let_def new_soup_def sub_elements_def node_contents_def
        output_element_ok_def allow_listed_def lowers LLM_OPTIMIZED_TAGS_def
        allowed_attrs_for_tag_def ATTRIBUTE_ALLOW_LIST_def is_charset_meta_def has_name_def
        is_tag_def node_name_def node_attrs_def)
qed

lemma clean_soup_ok: "sub_elements output_element_ok (clean_soup L now parsed url)"
proof -
  have "sub_elements output_element_ok (normalize_text_content (build_new_soup L parsed url))"
    using content_free_output build_new_soup_ok by (rule normalize_text_content_sub)
  with content_free_output meta_section_ok h1_ok show ?thesis
    unfolding clean_soup_def by (rule add_llm_metadata_sub)
qed

lemma tag_paths_get:
  "p \<in> set (tag_paths nm p0 n) \<Longrightarrow>
     \<exists>rest as cs. p = p0 @ rest \<and> get_at n rest = Some (Element nm as cs)"
  "p \<in> set (tag_paths_list nm p0 i cs0) \<Longrightarrow>
     \<exists>j rest as cs. p = p0 @ (i + j) # rest \<and> j < length cs0 \<and>
        get_at (cs0 ! j) rest = Some (Element nm as cs)"
proof (induction nm p0 n and nm p0 i cs0 arbitrary: p and p rule: tag_paths_tag_paths_list.induct)
  case (1 nm p0 s)
  then show ?case by simp
next
  case (2 nm p0 nm' as cs)
  from "2.prems" consider "nm' = nm" "p = p0" | "p \<in> set (tag_paths_list nm p0 0 cs)"
    by (auto split: if_splits)
  then show ?case
  proof cases
    case 1
    then show ?thesis by auto
  next
    case 2
    from "2.IH"[OF this] obtain j rest as' cs' where
      "p = p0 @ j # rest" "j < length cs" "get_at (cs ! j) rest = Some (Element nm as' cs')"
      by auto
    then show ?thesis by (intro exI[of _ "j # rest"]) auto
  qed
next
  case (3 nm p0 i)
  then show ?case by simp
next
  case (4 nm p0 i c cs)
  from "4.prems" consider "p \<in> set (tag_paths nm (p0 @ [i]) c)" | "p \<in> set (tag_paths_list nm p0 (Suc i) cs)"
    by auto
  then show ?case
  proof cases
    case 1
    from "4.IH"(1)[OF this] obtain rest as' cs' where
      "p = (p0 @ [i]) @ rest" "get_at c rest = Some (Element nm as' cs')" by auto
    then show ?thesis by (intro exI[of _ 0] exI[of _ rest]) auto
  next
    case 2
    from "4.IH"(2)[OF this] obtain j rest as' cs' where
      "p = p0 @ (Suc i + j) # rest" "j < length cs" "get_at (cs ! j) rest = Some (Element nm as' cs')"
      by auto
    then show ?thesis by (intro exI[of _ "Suc j"] exI[of _ rest]) auto
  qed
qed

lemma get_at_update_at:
  "get_at n p = Some m \<Longrightarrow> get_at (update_at f p n) p = Some (f m)"
proof (induction n p rule: get_at.induct)
  case (3 nm as cs i p)
  then show ?case by (auto split: if_splits)
qed simp_all

lemma update_at_eq_at:
  assumes "update_at f p n = update_at g p n" and "get_at n p = Some m"
  shows "f m = g m"
  using get_at_update_at[OF assms(2), of f] get_at_update_at[OF assms(2), of g] assms(1) by simp

lemma insert_before_first_tag_head:
  "insert_before_first_tag (m1 # e1) cs = insert_before_first_tag (m2 # e2) cs \<Longrightarrow> m1 = m2"
  by (induction cs) (auto split: if_splits)

lemma meta_section_inj: "meta_section url now1 = meta_section url now2 \<Longrightarrow> now1 = now2"
  by (simp add: meta_section_def)

lemma inject_metadata_inj:
  assumes "inject_metadata url title now1 (Element nm as cs) = inject_metadata url title now2 (Element nm as cs)"
  shows "now1 = now2"
proof -
  have ex: "\<exists>e. inject_metadata url title now (Element nm as cs) =
      Element nm as (insert_before_first_tag (meta_section url now # e) cs)" for now
  proof (cases "find (has_name ''h1'')
      (concat (map tags_of (insert_before_first_tag [meta_section url now] cs))) = None \<and> title \<noteq> []")
    case True
    then show ?thesis by (intro exI[of _ "[Element ''h1'' [] [Text title]]"]) (simp add: inject_metadata_def)
  next
    case False
    then show ?thesis by (intro exI[of _ "[]"]) (auto simp: inject_metadata_def)
  qed
  from ex[of now1] obtain e1 where 1: "inject_metadata url title now1 (Element nm as cs) =
      Element nm as (insert_before_first_tag (meta_section url now1 # e1) cs)" by blast
  from ex[of now2] obtain e2 where 2: "inject_metadata url title now2 (Element nm as cs) =
      Element nm as (insert_before_first_tag (meta_section url now2 # e2) cs)" by blast
  from assms 1 2 have "meta_section url now1 = meta_section url now2"
    by (auto dest: insert_before_first_tag_head)
  then show ?thesis by (rule meta_section_inj)
qed

lemma add_llm_metadata_eq_iff:
  "(add_llm_metadata soup url title now1 = add_llm_metadata soup url title now2) =
   (now1 = now2 \<or> tag_paths ''body'' [] soup = [])"
proof (cases "tag_paths ''body'' [] soup")
  case Nil
  then show ?thesis by (simp add: add_llm_metadata_def)
next
  case (Cons p ps)
  then have "p \<in> set (tag_paths ''body'' [] soup)" by simp
  from tag_paths_get(1)[OF this] obtain as cs where g: "get_at soup p = Some (Element ''body'' as cs)"
    by auto
  have "now1 = now2"
    if "update_at (inject_metadata url title now1) p soup = update_at (inject_metadata url title now2) p soup"
    using update_at_eq_at[OF that g] by (rule inject_metadata_inj)
  then show ?thesis using Cons by (auto simp: add_llm_metadata_def)
qed

lemma clean_soup_eq_iff:
  "(clean_soup L now1 parsed url = clean_soup L now2 parsed url) =
   (now1 = now2 \<or> tag_paths ''body'' [] (normalize_text_content (build_new_soup L parsed url)) = [])"
  unfolding clean_soup_def by (rule add_llm_metadata_eq_iff)

lemma extract_not_boilerplate:
  "try_selectors soup selectors \<noteq> None \<or> density_candidates soup \<noteq> [] \<Longrightarrow>
   \<not> is_likely_boilerplate (extract_main_content soup)"
proof (cases "try_selectors soup selectors")
  case (Some c)
  from try_selectors_Some[OF Some] show ?thesis by (simp add: extract_main_content_def Some)
next
  case None
  assume "try_selectors soup selectors \<noteq> None \<or> density_candidates soup \<noteq> []"
  with None obtain item items where d: "density_candidates soup = item # items"
    by (cases "density_candidates soup") auto
  have "max_by_score item items \<in> set (density_candidates soup)"
    unfolding d by (rule max_by_score_mem)
  with density_keys_ok[of soup] have "\<not> is_likely_boilerplate (fst (max_by_score item items))"
    by (auto simp: keys_ok_def list_all_iff)
  then show ?thesis by (simp add: extract_main_content_def None d)
qed

lemma candidates_not_boilerplate:
  "(c, s) \<in> set (density_candidates soup) \<Longrightarrow> \<not> is_likely_boilerplate c"
  using density_keys_ok[of soup] by (auto simp: keys_ok_def list_all_iff)



lemma two_paragraphs_output_has_metadata:
  "meta_section ''https://e.com/p'' ''2026-01-01 00:00:00 UTC'' \<in>
     set (descendant_tags
       (clean_soup test_lib ''2026-01-01 00:00:00 UTC'' doc_two_paragraphs ''https://e.com/p''))"
  by code_simp

lemma two_paragraphs_keep_body:
  "tag_paths ''body'' [] (normalize_text_content
     (build_new_soup test_lib doc_two_paragraphs ''https://e.com/p'')) \<noteq> []"
  by code_simp


lemma nested_unwrap_leaves_div:
  "clean_element_recursively test_lib ''https://e.com/p'' 0 30
     (Element ''p'' [] [Element ''span'' [] [Element ''span'' [] [Text ''a'']]]) =
   Some (Element ''p'' [] [Element ''div'' [] [Text ''a'']])"
  by code_simp

section \<open>The claims about the whole pipeline\<close>

subsection \<open>Allow-list closure\<close>

text \<open>
  Claim C1, as amended. In every document the pipeline returns, every element other than
  the skeleton's \<open>meta\<close> element, the metadata section the injector adds, and an
  attribute-less \<open>div\<close> left over from unwrapping has a tag in the allow-listed tag set
  and only attribute names in the allow-list of its tag (names compared in lower case, as
  the transformer compares them).
\<close>

theorem C1_allow_list_closure:
  "list_all
     (all_elements (\<lambda>e. allow_listed e \<or> is_unwrapped e \<or> is_charset_meta e \<or> is_metadata_section e))
     (node_contents (clean_soup L now parsed url))"
proof -
  have "output_element_ok = (\<lambda>e. allow_listed e \<or> is_unwrapped e \<or> is_charset_meta e \<or> is_metadata_section e)"
    by (rule ext) (simp add: output_element_ok_def)
  with clean_soup_ok[of L now parsed url] show ?thesis
    by (simp add: sub_elements_def)
qed

text \<open>The theorem at a page of two paragraphs.\<close>

theorem C1_allow_list_closure_witness:
  "list_all
     (all_elements (\<lambda>e. allow_listed e \<or> is_unwrapped e \<or> is_charset_meta e \<or> is_metadata_section e))
     (node_contents
       (clean_soup test_lib ''2026-01-01 00:00:00 UTC'' doc_two_paragraphs ''https://e.com/p''))"
  by (rule C1_allow_list_closure)

text \<open>
  The claim as stated fails at that page: the output holds the metadata section, whose
  \<open>role\<close> and \<open>aria-label\<close> attributes are not in the allow-list of \<open>section\<close>.
\<close>

theorem C1_counterexample:
  "meta_section ''https://e.com/p'' ''2026-01-01 00:00:00 UTC'' \<in>
     set (descendant_tags
       (clean_soup test_lib ''2026-01-01 00:00:00 UTC'' doc_two_paragraphs ''https://e.com/p'')) \<and>
   \<not> allow_listed (meta_section ''https://e.com/p'' ''2026-01-01 00:00:00 UTC'')"
proof -
  have "\<not> allow_listed (meta_section ''https://e.com/p'' ''2026-01-01 00:00:00 UTC'')"
    by (simp add: allow_listed_def meta_section_def allowed_attrs_for_tag_def
        ATTRIBUTE_ALLOW_LIST_def lower_def lower_char_def is_upper_def)
  with two_paragraphs_output_has_metadata show ?thesis by simp
qed

subsection \<open>Boilerplate exclusion\<close>

text \<open>
  Claim C2, as amended. The classifier is consulted by the locator only: a content root
  found by a selector or by density scoring is never classified as boilerplate, and no
  candidate retained by the density scan is. Nothing after the locator consults the
  classifier.
\<close>

theorem C2_locator_excludes_boilerplate:
  "(try_selectors soup selectors \<noteq> None \<or> density_candidates soup \<noteq> [] \<longrightarrow>
      \<not> is_likely_boilerplate (extract_main_content soup)) \<and>
   (\<forall>c s. (c, s) \<in> set (density_candidates soup) \<longrightarrow> \<not> is_likely_boilerplate c)"
  using extract_not_boilerplate[of soup] candidates_not_boilerplate[of _ _ soup] by blast

text \<open>The theorem at the two nested \<open>div\<close> elements: density scoring finds a root.\<close>

theorem C2_locator_excludes_boilerplate_witness:
  "density_candidates doc_nested_divs \<noteq> [] \<and>
   \<not> is_likely_boilerplate (extract_main_content doc_nested_divs)"
proof -
  have "density_candidates doc_nested_divs \<noteq> []" by (simp add: density_nested)
  with C2_locator_excludes_boilerplate[of doc_nested_divs] show ?thesis by blast
qed

text \<open>
  The claim as stated fails at the page of two paragraphs: the output holds the metadata
  section, and the classifier evaluates to true on it (its \<open>role\<close> is
  \<open>complementary\<close>).
\<close>

theorem C2_counterexample:
  "meta_section ''https://e.com/p'' ''2026-01-01 00:00:00 UTC'' \<in>
     set (descendant_tags
       (clean_soup test_lib ''2026-01-01 00:00:00 UTC'' doc_two_paragraphs ''https://e.com/p'')) \<and>
   is_likely_boilerplate (meta_section ''https://e.com/p'' ''2026-01-01 00:00:00 UTC'')"
proof -
  have "attribute_boilerplate (meta_section ''https://e.com/p'' ''2026-01-01 00:00:00 UTC'')"
    by (simp add: attribute_boilerplate_def NON_CONTENT_PATTERNS_def attr_get_def node_attrs_def
        meta_section_def truthy_def pattern_match_def lower_def lower_char_def is_upper_def)
  then have "is_likely_boilerplate (meta_section ''https://e.com/p'' ''2026-01-01 00:00:00 UTC'')"
    by (simp add: is_likely_boilerplate_def is_tag_def meta_section_def)
  with two_paragraphs_output_has_metadata show ?thesis by simp
qed

subsection \<open>Depth bound\<close>



subsection \<open>Whitespace normalization\<close>

text \<open>
  Claim C8, evaluated below a \<open>pre\<close> element. The text that is a direct child of the
  \<open>pre\<close> keeps its run of three spaces; the text one level further down, inside a
  \<open>strong\<close> within the same \<open>pre\<close>, has its run collapsed to one space, because only
  the name of the text's immediate parent is looked at.
\<close>

theorem C8_nested_pre_text_collapsed:
  "normalize_text_content (Element ''[document]'' []
     [Element ''pre'' [] [Text ''a   b'', Element ''strong'' [] [Text ''c   d'']]]) =
   Element ''[document]'' []
     [Element ''pre'' [] [Text ''a   b'', Element ''strong'' [] [Text ''c d'']]]"
  by code_simp

subsection \<open>Determinism\<close>

text \<open>
  Claim C9, as amended. The cleaned document is a function of the parsed page, the source
  URL and the clock reading that the metadata injector formats into the document. Two
  invocations on the same page and URL return the same document exactly when they read
  the same timestamp, or when the cleaned tree has no \<open>body\<close> element left, where no
  metadata is injected.
\<close>

theorem C9_same_output_iff_same_clock:
  "(clean_soup L now1 parsed url = clean_soup L now2 parsed url) =
   (now1 = now2 \<or>
    tag_paths ''body'' [] (normalize_text_content (build_new_soup L parsed url)) = [])"
  by (rule clean_soup_eq_iff)

text \<open>The theorem at the page of two paragraphs, one second apart.\<close>

theorem C9_same_output_iff_same_clock_witness:
  "tag_paths ''body'' [] (normalize_text_content
     (build_new_soup test_lib doc_two_paragraphs ''https://e.com/p'')) \<noteq> [] \<and>
   clean_soup test_lib ''2026-01-01 00:00:00 UTC'' doc_two_paragraphs ''https://e.com/p'' \<noteq>
   clean_soup test_lib ''2026-01-01 00:00:01 UTC'' doc_two_paragraphs ''https://e.com/p''"
proof -
  have "''2026-01-01 00:00:00 UTC'' \<noteq> ''2026-01-01 00:00:01 UTC''" by simp
  with C9_same_output_iff_same_clock[of test_lib "''2026-01-01 00:00:00 UTC''" doc_two_paragraphs
      "''https://e.com/p''" "''2026-01-01 00:00:01 UTC''"]
    two_paragraphs_keep_body
  show ?thesis by blast
qed

text \<open>
  The claim as stated fails at that page: the same HTML text and URL, cleaned at two
  different seconds, give two different output texts.
\<close>

theorem C9_counterexample:
  "clean_html_content test_lib ''2026-01-01 00:00:00 UTC'' ''<p>A</p><p>B</p>'' ''https://e.com/p'' \<noteq>
   clean_html_content test_lib ''2026-01-01 00:00:01 UTC'' ''<p>A</p><p>B</p>'' ''https://e.com/p''"
  by code_simp

subsection \<open>Failure containment\<close>



end
